theory Spec2Isabelle
  imports Complex_Main "HOL-Library.Multiset"
begin

section \<open>Values of a parsed JSON document\<close>

text \<open>
  \<^verbatim>\<open>parse_transcript\<close> works on whatever \<^verbatim>\<open>json.load\<close> returns: \<^verbatim>\<open>None\<close>, a bool, an int,
  a float, a str, a list or a dict with str keys. A dict is an association list read with
  \<open>map_of\<close>; a parsed dict has each key once. A str is the list of the bytes of its UTF-8
  encoding; concatenation, emptiness and equality of strs agree with those of the
  encodings. A finite float is the rational number it denotes; the floats that are not
  finite are left out. The extractor only tests a float for being zero.
\<close>

datatype json =
    JNull
  | JBool bool
  | JInt int
  | JFloat rat
  | JStr string
  | JArr "json list"
  | JObj "(string \<times> json) list"

datatype py_error = TypeError | AttributeError | KeyError

text \<open>An exception ends the function that raised it: the rest runs only on a value.\<close>

definition andthen :: "py_error + 'a \<Rightarrow> ('a \<Rightarrow> py_error + 'b) \<Rightarrow> py_error + 'b" where
  "andthen m f = (case m of Inl e \<Rightarrow> Inl e | Inr x \<Rightarrow> f x)"

text \<open>\<^verbatim>\<open>s in t\<close> for two strs: \<open>s\<close> occurs in \<open>t\<close> as a contiguous piece.\<close>

fun str_contains :: "string \<Rightarrow> string \<Rightarrow> bool" where
  "str_contains k [] = (k = [])"
| "str_contains k (c # s) = (take (length k) (c # s) = k \<or> str_contains k s)"

text \<open>\<^verbatim>\<open>key in value\<close> with a str on the left.\<close>

fun py_contains :: "string \<Rightarrow> json \<Rightarrow> py_error + bool" where
  "py_contains k (JObj kvs) = Inr (map_of kvs k \<noteq> None)"
| "py_contains k (JArr xs) = Inr (JStr k \<in> set xs)"
| "py_contains k (JStr s) = Inr (str_contains k s)"
| "py_contains k _ = Inl TypeError"

text \<open>\<^verbatim>\<open>value[key]\<close> with a str key: only a dict can be indexed by a str.\<close>

fun py_getitem :: "json \<Rightarrow> string \<Rightarrow> py_error + json" where
  "py_getitem (JObj kvs) k = (case map_of kvs k of None \<Rightarrow> Inl KeyError | Some v \<Rightarrow> Inr v)"
| "py_getitem _ k = Inl TypeError"

text \<open>\<^verbatim>\<open>value.get(key, default)\<close>: only a dict has the method.\<close>

fun py_get :: "json \<Rightarrow> string \<Rightarrow> json \<Rightarrow> py_error + json" where
  "py_get (JObj kvs) k d = Inr (case map_of kvs k of None \<Rightarrow> d | Some v \<Rightarrow> v)"
| "py_get _ k d = Inl AttributeError"

text \<open>
  \<^verbatim>\<open>for x in value\<close>: the items of a list, the keys of a dict, the characters of a str
  (each a str of its own); anything else is not iterable. Python walks a str by code
  points and the list here has one item for each byte; every loop of the extractor calls
  \<^verbatim>\<open>get\<close> on the first item, which a str does not have, so only the emptiness of the str
  matters.
\<close>

fun py_iter :: "json \<Rightarrow> py_error + json list" where
  "py_iter (JArr xs) = Inr xs"
| "py_iter (JObj kvs) = Inr (map (\<lambda>kv. JStr (fst kv)) kvs)"
| "py_iter (JStr s) = Inr (map (\<lambda>c. JStr [c]) s)"
| "py_iter _ = Inl TypeError"

text \<open>\<^verbatim>\<open>if value:\<close>\<close>

fun truthy :: "json \<Rightarrow> bool" where
  "truthy JNull = False"
| "truthy (JBool b) = b"
| "truthy (JInt i) = (i \<noteq> 0)"
| "truthy (JFloat q) = (q \<noteq> 0)"
| "truthy (JStr s) = (s \<noteq> [])"
| "truthy (JArr xs) = (xs \<noteq> [])"
| "truthy (JObj kvs) = (kvs \<noteq> [])"

text \<open>\<^verbatim>\<open>sep.join(items)\<close> on strs, and the check that every item is a str.\<close>

fun py_join :: "string \<Rightarrow> string list \<Rightarrow> string" where
  "py_join sep [] = []"
| "py_join sep [x] = x"
| "py_join sep (x # y # ys) = x @ sep @ py_join sep (y # ys)"

fun str_items :: "json list \<Rightarrow> py_error + string list" where
  "str_items [] = Inr []"
| "str_items (JStr s # ps) = andthen (str_items ps) (\<lambda>ss. Inr (s # ss))"
| "str_items (_ # ps) = Inl TypeError"

section \<open>Utterance records\<close>

text \<open>
  A record of the transcript is a dict with the keys \<^verbatim>\<open>speaker_name\<close>, \<^verbatim>\<open>content\<close> and
  \<^verbatim>\<open>start_time\<close>. The content is always a str; the other two fields hold what the
  document holds, so their types are parameters: the extractor fills them with JSON
  values, the merger needs start times that are linearly ordered, the formatter needs
  names that are strs.
\<close>

record ('n, 't) utterance =
  speaker_name :: 'n
  content :: string
  start_time :: 't

section \<open>parse_transcript\<close>

text \<open>The placeholder speaker name, U+672A U+77E5 U+53D1 U+8A00 U+4EBA in UTF-8.\<close>

definition unknown_speaker :: string where
  "unknown_speaker =
     [CHR 0xE6, CHR 0x9C, CHR 0xAA, CHR 0xE7, CHR 0x9F, CHR 0xA5, CHR 0xE5, CHR 0x8F, CHR 0x91,
      CHR 0xE8, CHR 0xA8, CHR 0x80, CHR 0xE4, CHR 0xBA, CHR 0xBA]"

text \<open>The loop over the words of one sentence; \<open>content_parts\<close> is carried along.\<close>

fun words_loop :: "json list \<Rightarrow> json list \<Rightarrow> py_error + json list" where
  "words_loop [] content_parts = Inr content_parts"
| "words_loop (word # rest) content_parts =
     andthen (py_get word ''text'' (JStr [])) (\<lambda>text.
       words_loop rest (if truthy text then content_parts @ [text] else content_parts))"

text \<open>The loop over the sentences of one paragraph.\<close>

fun sentences_loop :: "json list \<Rightarrow> json list \<Rightarrow> py_error + json list" where
  "sentences_loop [] content_parts = Inr content_parts"
| "sentences_loop (sentence # rest) content_parts =
     andthen (py_get sentence ''words'' (JArr [])) (\<lambda>ws.
     andthen (py_iter ws) (\<lambda>wl.
     andthen (words_loop wl content_parts) (\<lambda>content_parts'.
       sentences_loop rest content_parts')))"

text \<open>The body of the loop over the paragraphs: it appends at most one record.\<close>

definition paragraph_body ::
  "json \<Rightarrow> (json, json) utterance list \<Rightarrow> py_error + (json, json) utterance list" where
  "paragraph_body paragraph transcript =
     andthen (py_get paragraph ''speaker'' (JObj [])) (\<lambda>speaker.
     andthen (py_get speaker ''user_name'' (JStr unknown_speaker)) (\<lambda>name.
     andthen (py_get paragraph ''sentences'' (JArr [])) (\<lambda>ss.
     andthen (py_iter ss) (\<lambda>sl.
     andthen (sentences_loop sl []) (\<lambda>content_parts.
       if content_parts \<noteq> [] then
         andthen (str_items content_parts) (\<lambda>parts.
         andthen (py_get paragraph ''start_time'' (JInt 0)) (\<lambda>t.
           Inr (transcript @
             [\<lparr>speaker_name = name, content = py_join [] parts, start_time = t\<rparr>])))
       else Inr transcript)))))"

fun paragraphs_loop ::
  "json list \<Rightarrow> (json, json) utterance list \<Rightarrow> py_error + (json, json) utterance list" where
  "paragraphs_loop [] transcript = Inr transcript"
| "paragraphs_loop (paragraph # rest) transcript =
     andthen (paragraph_body paragraph transcript) (\<lambda>transcript'.
       paragraphs_loop rest transcript')"

text \<open>
  \<^verbatim>\<open>parse_transcript\<close> after \<^verbatim>\<open>json.load\<close>: \<open>data\<close> is the parsed document. The second
  test of the \<^verbatim>\<open>and\<close> is evaluated only when the first one holds.
\<close>

definition parse_transcript :: "json \<Rightarrow> py_error + (json, json) utterance list" where
  "parse_transcript data =
     andthen (py_contains ''minutes'' data) (\<lambda>has_minutes.
       if has_minutes then
         andthen (py_getitem data ''minutes'') (\<lambda>minutes.
         andthen (py_contains ''paragraphs'' minutes) (\<lambda>has_paragraphs.
           if has_paragraphs then
             andthen (py_getitem data ''minutes'') (\<lambda>minutes'.
             andthen (py_getitem minutes' ''paragraphs'') (\<lambda>paragraphs.
             andthen (py_iter paragraphs) (\<lambda>pl.
               paragraphs_loop pl [])))
           else Inr []))
       else Inr [])"

section \<open>merge_transcripts\<close>

text \<open>
  \<^verbatim>\<open>merged.extend(transcript)\<close> for each transcript in turn, then \<^verbatim>\<open>merged.sort\<close> on the
  key \<^verbatim>\<open>start_time\<close>. Python's sort is stable, and so is \<open>sort_key\<close>; on keys that are
  linearly ordered there is one stable sorted arrangement of a list
  (\<open>properties_for_sort_key\<close>), so the two sorts return the same list. Start times
  that Python cannot order, a str against a number or a float that is not a number, are
  not values of such a type.
\<close>

fun extend_all :: "'a list \<Rightarrow> 'a list list \<Rightarrow> 'a list" where
  "extend_all merged [] = merged"
| "extend_all merged (transcript # rest) = extend_all (merged @ transcript) rest"

definition merge_transcripts ::
  "('n, 't::linorder) utterance list list \<Rightarrow> ('n, 't) utterance list" where
  "merge_transcripts transcripts = sort_key start_time (extend_all [] transcripts)"

section \<open>format_to_markdown\<close>

definition format_record :: "(string, 't) utterance \<Rightarrow> string" where
  "format_record r = ''**['' @ speaker_name r @ '']**: '' @ content r @ ''\<newline>''"

definition format_to_markdown :: "(string, 't) utterance list \<Rightarrow> string" where
  "format_to_markdown transcript = py_join ''\<newline>'' (map format_record transcript)"

section \<open>The merging step of main\<close>

text \<open>
  Lines 126 to 135 of the source: with no transcript the program exits with status 1,
  with one it takes that transcript as it is, with more it merges them.
\<close>

datatype exit = Exit nat

definition main_merge ::
  "('n, 't::linorder) utterance list list \<Rightarrow> exit + ('n, 't) utterance list" where
  "main_merge all_transcripts =
     (if all_transcripts = [] then Inl (Exit 1)
      else if length all_transcripts > 1 then Inr (merge_transcripts all_transcripts)
      else Inr (all_transcripts ! 0))"

section \<open>merge_transcripts on list objects\<close>

text \<open>
  Python's lists are objects: \<^verbatim>\<open>extend\<close> and \<^verbatim>\<open>sort\<close> change the list they are called
  on, and the caller still holds the lists it passed. Here a heap maps an address to the
  list stored there (the address is the index), \<open>transcripts\<close> is the list of the
  addresses of the input lists, and the function returns the new heap with the address
  of \<^verbatim>\<open>merged\<close>. The records themselves are only read. A reference a Python program
  holds is to a live object, so the theorems take the addresses in \<open>transcripts\<close> to be
  on the heap.
\<close>

type_synonym addr = nat

type_synonym 'u heap = "'u list list"

text \<open>\<^verbatim>\<open>merged = []\<close>: a new empty list at the next free address.\<close>

definition new_list :: "'u heap \<Rightarrow> 'u heap \<times> addr" where
  "new_list h = (h @ [[]], length h)"

text \<open>\<^verbatim>\<open>merged.extend(transcript)\<close>\<close>

definition list_extend :: "'u heap \<Rightarrow> addr \<Rightarrow> addr \<Rightarrow> 'u heap" where
  "list_extend h merged transcript = h[merged := h ! merged @ h ! transcript]"

fun extend_loop :: "'u heap \<Rightarrow> addr \<Rightarrow> addr list \<Rightarrow> 'u heap" where
  "extend_loop h merged [] = h"
| "extend_loop h merged (transcript # rest) =
     extend_loop (list_extend h merged transcript) merged rest"

text \<open>\<^verbatim>\<open>merged.sort(key=lambda x: x['start_time'])\<close>\<close>

definition list_sort :: "('n, 't::linorder) utterance heap \<Rightarrow> addr \<Rightarrow> ('n, 't) utterance heap" where
  "list_sort h merged = h[merged := sort_key start_time (h ! merged)]"

definition merge_transcripts_heap ::
  "('n, 't::linorder) utterance heap \<Rightarrow> addr list \<Rightarrow> ('n, 't) utterance heap \<times> addr" where
  "merge_transcripts_heap h transcripts =
     (let (h1, merged) = new_list h;
          h2 = extend_loop h1 merged transcripts;
          h3 = list_sort h2 merged
      in (h3, merged))"

section \<open>Well-formed documents and the fragments of a paragraph\<close>

text \<open>
  The shape the extractor expects: the document is a dict; \<^verbatim>\<open>minutes\<close>, where present, is
  a dict; \<^verbatim>\<open>paragraphs\<close>, where present, is a list of paragraphs. A paragraph is a dict
  whose \<^verbatim>\<open>speaker\<close>, where present, is a dict and whose \<^verbatim>\<open>sentences\<close>, where present, is a
  list of sentences; a sentence is a dict whose \<^verbatim>\<open>words\<close>, where present, is a list of
  words; a word is a dict whose \<^verbatim>\<open>text\<close>, where present, is a str. Every key may be
  absent, any other key may be present, and \<^verbatim>\<open>user_name\<close> and \<^verbatim>\<open>start_time\<close> may hold
  anything.
\<close>

fun wf_text :: "json option \<Rightarrow> bool" where
  "wf_text None = True"
| "wf_text (Some (JStr s)) = True"
| "wf_text (Some _) = False"

fun wf_word :: "json \<Rightarrow> bool" where
  "wf_word (JObj kvs) = wf_text (map_of kvs ''text'')"
| "wf_word _ = False"

fun wf_words :: "json option \<Rightarrow> bool" where
  "wf_words None = True"
| "wf_words (Some (JArr ws)) = list_all wf_word ws"
| "wf_words (Some _) = False"

fun wf_sentence :: "json \<Rightarrow> bool" where
  "wf_sentence (JObj kvs) = wf_words (map_of kvs ''words'')"
| "wf_sentence _ = False"

fun wf_sentences :: "json option \<Rightarrow> bool" where
  "wf_sentences None = True"
| "wf_sentences (Some (JArr ss)) = list_all wf_sentence ss"
| "wf_sentences (Some _) = False"

fun wf_speaker :: "json option \<Rightarrow> bool" where
  "wf_speaker None = True"
| "wf_speaker (Some (JObj kvs)) = True"
| "wf_speaker (Some _) = False"

fun wf_paragraph :: "json \<Rightarrow> bool" where
  "wf_paragraph (JObj kvs) =
     (wf_speaker (map_of kvs ''speaker'') \<and> wf_sentences (map_of kvs ''sentences''))"
| "wf_paragraph _ = False"

fun wf_paragraphs :: "json option \<Rightarrow> bool" where
  "wf_paragraphs None = True"
| "wf_paragraphs (Some (JArr ps)) = list_all wf_paragraph ps"
| "wf_paragraphs (Some _) = False"

fun wf_minutes :: "json option \<Rightarrow> bool" where
  "wf_minutes None = True"
| "wf_minutes (Some (JObj kvs)) = wf_paragraphs (map_of kvs ''paragraphs'')"
| "wf_minutes (Some _) = False"

fun wf_document :: "json \<Rightarrow> bool" where
  "wf_document (JObj kvs) = wf_minutes (map_of kvs ''minutes'')"
| "wf_document _ = False"

text \<open>
  The word text fragments of a paragraph as the specification describes them: the
  \<^verbatim>\<open>text\<close> of every word of every sentence, in the order of the document, an absent
  \<^verbatim>\<open>text\<close> counting as the empty fragment. These functions follow the specification, not
  the loops of the source; the theorems compare the two.
\<close>

fun spec_text :: "json option \<Rightarrow> string" where
  "spec_text (Some (JStr s)) = s"
| "spec_text _ = []"

fun spec_word_text :: "json \<Rightarrow> string" where
  "spec_word_text (JObj kvs) = spec_text (map_of kvs ''text'')"
| "spec_word_text _ = []"

fun spec_items :: "json option \<Rightarrow> json list" where
  "spec_items (Some (JArr xs)) = xs"
| "spec_items _ = []"

fun spec_sentence_fragments :: "json \<Rightarrow> string list" where
  "spec_sentence_fragments (JObj kvs) = map spec_word_text (spec_items (map_of kvs ''words''))"
| "spec_sentence_fragments _ = []"

fun spec_fragments :: "json \<Rightarrow> string list" where
  "spec_fragments (JObj kvs) =
     concat (map spec_sentence_fragments (spec_items (map_of kvs ''sentences'')))"
| "spec_fragments _ = []"

definition nonempty_fragments :: "json \<Rightarrow> string list" where
  "nonempty_fragments p = filter (\<lambda>f. f \<noteq> []) (spec_fragments p)"

text \<open>
  The record the specification describes for a paragraph: the speaker's
  \<^verbatim>\<open>user_name\<close>, or the placeholder when the \<^verbatim>\<open>speaker\<close> unit or the key is absent; the
  non-empty fragments joined with no separator; the paragraph's \<^verbatim>\<open>start_time\<close>, or 0
  when it is absent. The extraction the specification describes for a document: one
  such record for each paragraph of \<^verbatim>\<open>minutes.paragraphs\<close> that has a non-empty fragment,
  in the order of the document.
\<close>

fun spec_user_name :: "json option \<Rightarrow> json" where
  "spec_user_name (Some (JObj kvs)) =
     (case map_of kvs ''user_name'' of None \<Rightarrow> JStr unknown_speaker | Some v \<Rightarrow> v)"
| "spec_user_name _ = JStr unknown_speaker"

fun spec_start_time :: "json option \<Rightarrow> json" where
  "spec_start_time None = JInt 0"
| "spec_start_time (Some t) = t"

fun spec_utterance :: "json \<Rightarrow> (json, json) utterance" where
  "spec_utterance (JObj kvs) =
     \<lparr>speaker_name = spec_user_name (map_of kvs ''speaker''),
      content = concat (nonempty_fragments (JObj kvs)),
      start_time = spec_start_time (map_of kvs ''start_time'')\<rparr>"
| "spec_utterance p =
     \<lparr>speaker_name = JStr unknown_speaker, content = [], start_time = JInt 0\<rparr>"

definition spec_records :: "json list \<Rightarrow> (json, json) utterance list" where
  "spec_records ps = map spec_utterance (filter (\<lambda>p. nonempty_fragments p \<noteq> []) ps)"

fun spec_paragraphs :: "json \<Rightarrow> json list" where
  "spec_paragraphs (JObj kvs) =
     (case map_of kvs ''minutes'' of
        Some (JObj m) \<Rightarrow> spec_items (map_of m ''paragraphs'')
      | _ \<Rightarrow> [])"
| "spec_paragraphs _ = []"

definition spec_extract :: "json \<Rightarrow> (json, json) utterance list" where
  "spec_extract d = spec_records (spec_paragraphs d)"

section \<open>The formatter on one record\<close>

text \<open>
  C1 (as the code has it). For the single record with speaker Alice, content Hello and
  start time 0 the formatter returns the line followed by one newline: the record's
  line ends with a newline, and joining one line adds no separator.
\<close>

theorem format_single_alice:
  "format_to_markdown [\<lparr>speaker_name = ''Alice'', content = ''Hello'', start_time = 0::int\<rparr>]
     = ''**[Alice]**: Hello\<newline>''"
  by (simp add: format_to_markdown_def format_record_def)

text \<open>
  C1 (as the specification words it) fails: the result is not the line followed by two
  newlines.
\<close>

theorem format_single_alice_not_two_newlines:
  "format_to_markdown [\<lparr>speaker_name = ''Alice'', content = ''Hello'', start_time = 0::int\<rparr>]
     \<noteq> ''**[Alice]**: Hello\<newline>\<newline>''"
  by (simp add: format_to_markdown_def format_record_def)

section \<open>The merger\<close>

lemma extend_all_concat: "extend_all merged ts = merged @ concat ts"
  by (induction ts arbitrary: merged) simp_all

lemma merge_transcripts_concat: "merge_transcripts ts = sort_key start_time (concat ts)"
  by (simp add: merge_transcripts_def extend_all_concat)

lemma filter_key_sort:
  "filter (\<lambda>x. f k = f x) (sort_key f xs) = filter (\<lambda>x. f k = f x) xs"
proof -
  have "(\<lambda>x. f k = f x) = (\<lambda>x. f x = f k)" by auto
  then show ?thesis by (simp add: sort_key_stable)
qed

text \<open>
  What fixes the result of a stable sort: a list with the same elements, ascending in the
  key, in which the elements of each key keep their order, is the result of \<open>sort_key\<close>.
\<close>

lemma stable_sort_unique:
  assumes "mset ys = mset xs" and "sorted (map f ys)"
    and "\<And>k. filter (\<lambda>x. f x = k) ys = filter (\<lambda>x. f x = k) xs"
  shows "ys = sort_key f xs"
proof -
  have "filter (\<lambda>x. f k = f x) ys = filter (\<lambda>x. f k = f x) xs" for k
  proof -
    have "(\<lambda>x. f k = f x) = (\<lambda>x. f x = f k)" by auto
    then show ?thesis using assms(3) [of "f k"] by simp
  qed
  then have "sort_key f xs = ys"
    using assms(1,2) by (intro properties_for_sort_key) simp_all
  then show ?thesis by simp
qed

lemma sort_key_append_left: "sort_key f (sort_key f xs @ ys) = sort_key f (xs @ ys)"
  by (rule properties_for_sort_key) (simp_all add: filter_key_sort)

lemma sort_key_append_right: "sort_key f (xs @ sort_key f ys) = sort_key f (xs @ ys)"
  by (rule properties_for_sort_key) (simp_all add: filter_key_sort)

text \<open>
  C4. The result of the merger is the concatenation of the inputs, in their order, sorted
  stably by start time: it is ascending in the start time, it has the elements of the
  concatenation, and for every start time the records with that start time are in the
  order they have in the concatenation.
\<close>

theorem merge_stable_sort:
  "sorted (map start_time (merge_transcripts ts))
   \<and> mset (merge_transcripts ts) = mset (concat ts)
   \<and> (\<forall>k. filter (\<lambda>u. start_time u = k) (merge_transcripts ts)
           = filter (\<lambda>u. start_time u = k) (concat ts))"
  by (simp add: merge_transcripts_concat sort_key_stable)

text \<open>
  C10. The merger returns as many records as the inputs hold, and the result is a
  permutation of the concatenation of the inputs.
\<close>

theorem merge_length_permutation:
  "length (merge_transcripts ts) = sum_list (map length ts)
   \<and> mset (merge_transcripts ts) = mset (concat ts)"
  by (simp add: merge_transcripts_concat length_concat)

text \<open>
  C5. Merging is insensitive to the grouping of the inputs but not to their order: two
  transcripts of one record each, with the same start time, come out in the order given.
\<close>

theorem merge_grouping_not_reordering:
  "merge_transcripts [merge_transcripts [A, B], C] = merge_transcripts [A, B, C]
   \<and> merge_transcripts [A, merge_transcripts [B, C]] = merge_transcripts [A, B, C]
   \<and> merge_transcripts
        [[\<lparr>speaker_name = ''a'', content = ''x'', start_time = 0::int\<rparr>],
         [\<lparr>speaker_name = ''b'', content = ''y'', start_time = 0\<rparr>]]
     \<noteq> merge_transcripts
        [[\<lparr>speaker_name = ''b'', content = ''y'', start_time = 0\<rparr>],
         [\<lparr>speaker_name = ''a'', content = ''x'', start_time = 0\<rparr>]]"
proof -
  have "merge_transcripts [merge_transcripts [A, B], C] = merge_transcripts [A, B, C]"
    using sort_key_append_left [of start_time "A @ B" C]
    by (simp add: merge_transcripts_concat)
  moreover have "merge_transcripts [A, merge_transcripts [B, C]] = merge_transcripts [A, B, C]"
    using sort_key_append_right [of start_time A "B @ C"]
    by (simp add: merge_transcripts_concat)
  moreover have "merge_transcripts
        [[\<lparr>speaker_name = ''a'', content = ''x'', start_time = 0::int\<rparr>],
         [\<lparr>speaker_name = ''b'', content = ''y'', start_time = 0\<rparr>]]
     \<noteq> merge_transcripts
        [[\<lparr>speaker_name = ''b'', content = ''y'', start_time = 0\<rparr>],
         [\<lparr>speaker_name = ''a'', content = ''x'', start_time = 0\<rparr>]]"
    by (simp add: merge_transcripts_def)
  ultimately show ?thesis by blast
qed

text \<open>
  C2 (as the code has it). With one transcript \<open>main\<close> takes it as it is, while the
  merger sorts it: the two agree exactly when the transcript is already ascending in the
  start time.
\<close>

theorem merge_single_iff_sorted:
  "main_merge [A] = Inr A
   \<and> merge_transcripts [A] = sort_key start_time A
   \<and> (merge_transcripts [A] = A \<longleftrightarrow> sorted (map start_time A))"
proof -
  have m: "merge_transcripts [A] = sort_key start_time A"
    by (simp add: merge_transcripts_concat)
  have "sorted (map start_time A)" if "sort_key start_time A = A"
  proof -
    have "sorted (map start_time (sort_key start_time A))" by (rule sorted_sort_key)
    with that show ?thesis by simp
  qed
  moreover have "sort_key start_time A = A" if "sorted (map start_time A)"
    using that by (rule sort_key_id_if_sorted)
  ultimately show ?thesis
    using m by (auto simp add: main_merge_def)
qed

theorem merge_single_iff_sorted_witness:
  "main_merge [[\<lparr>speaker_name = ''a'', content = ''x'', start_time = 2::int\<rparr>,
                \<lparr>speaker_name = ''b'', content = ''y'', start_time = 5\<rparr>]]
     = Inr [\<lparr>speaker_name = ''a'', content = ''x'', start_time = 2\<rparr>,
            \<lparr>speaker_name = ''b'', content = ''y'', start_time = 5\<rparr>]
   \<and> merge_transcripts [[\<lparr>speaker_name = ''a'', content = ''x'', start_time = 2::int\<rparr>,
                \<lparr>speaker_name = ''b'', content = ''y'', start_time = 5\<rparr>]]
     = [\<lparr>speaker_name = ''a'', content = ''x'', start_time = 2\<rparr>,
        \<lparr>speaker_name = ''b'', content = ''y'', start_time = 5\<rparr>]"
  using merge_single_iff_sorted
    [of "[\<lparr>speaker_name = ''a'', content = ''x'', start_time = 2::int\<rparr>,
          \<lparr>speaker_name = ''b'', content = ''y'', start_time = 5\<rparr>]"]
  by simp

text \<open>
  C2 (as the specification words it) fails: a single transcript whose records are not in
  the order of their start times is changed by the merger and kept by \<open>main\<close>.
\<close>

theorem merge_single_unsorted_changes:
  "merge_transcripts [[\<lparr>speaker_name = ''a'', content = ''x'', start_time = 5::int\<rparr>,
                       \<lparr>speaker_name = ''b'', content = ''y'', start_time = 2\<rparr>]]
     \<noteq> [\<lparr>speaker_name = ''a'', content = ''x'', start_time = 5\<rparr>,
         \<lparr>speaker_name = ''b'', content = ''y'', start_time = 2\<rparr>]
   \<and> main_merge [[\<lparr>speaker_name = ''a'', content = ''x'', start_time = 5::int\<rparr>,
                  \<lparr>speaker_name = ''b'', content = ''y'', start_time = 2\<rparr>]]
     = Inr [\<lparr>speaker_name = ''a'', content = ''x'', start_time = 5\<rparr>,
            \<lparr>speaker_name = ''b'', content = ''y'', start_time = 2\<rparr>]"
  by (simp add: merge_transcripts_def main_merge_def)

section \<open>The merger on list objects\<close>

lemma length_extend_loop: "length (extend_loop h m ts) = length h"
  by (induction ts arbitrary: h) (simp_all add: list_extend_def)

lemma take_extend_loop: "take m (extend_loop h m ts) = take m h"
  by (induction ts arbitrary: h) (simp_all add: list_extend_def)

lemma extend_loop_merged:
  "m < length h \<Longrightarrow> m \<notin> set ts \<Longrightarrow>
   extend_loop h m ts ! m = h ! m @ concat (map ((!) h) ts)"
proof (induction ts arbitrary: h)
  case Nil
  then show ?case by simp
next
  case (Cons t ts)
  let ?h1 = "list_extend h m t"
  from Cons.prems have tm: "t \<noteq> m" and rest: "m \<notin> set ts" by auto
  have len: "m < length ?h1" using Cons.prems(1) by (simp add: list_extend_def)
  have same: "map ((!) ?h1) ts = map ((!) h) ts"
  proof -
    have "?h1 ! a = h ! a" if "a \<in> set ts" for a
    proof -
      from that rest have "a \<noteq> m" by auto
      then show ?thesis by (simp add: list_extend_def)
    qed
    then show ?thesis by simp
  qed
  have "?h1 ! m = h ! m @ h ! t"
    using Cons.prems(1) by (simp add: list_extend_def)
  with Cons.IH [OF len rest] same show ?case by simp
qed

text \<open>
  C8. The merger, run on a heap that holds the input lists, returns a list at a new
  address, and every list that was on the heap before, the inputs among them, is on the
  heap after as it was; the new list is the merged result.
\<close>

theorem merge_heap_frame:
  assumes "\<forall>a \<in> set ts. a < length h"
  shows "\<exists>h'. merge_transcripts_heap h ts = (h', length h)
     \<and> length h' = Suc (length h)
     \<and> take (length h) h' = h
     \<and> map ((!) h') ts = map ((!) h) ts
     \<and> h' ! length h = merge_transcripts (map ((!) h) ts)"
proof -
  let ?m = "length h"
  let ?h1 = "h @ [[]]"
  let ?h2 = "extend_loop ?h1 ?m ts"
  let ?h3 = "list_sort ?h2 ?m"
  have eq: "merge_transcripts_heap h ts = (?h3, ?m)"
    by (simp add: merge_transcripts_heap_def new_list_def)
  have len: "length ?h3 = Suc ?m"
    by (simp add: list_sort_def length_extend_loop)
  have frame: "take ?m ?h3 = h"
    by (simp add: list_sort_def take_extend_loop)
  have notin: "?m \<notin> set ts" using assms by auto
  have old: "map ((!) ?h1) ts = map ((!) h) ts"
    using assms by (auto simp add: nth_append)
  have inputs: "map ((!) ?h3) ts = map ((!) h) ts"
  proof -
    have "?h3 ! a = h ! a" if "a \<in> set ts" for a
    proof -
      from that assms have "a < ?m" by auto
      then have "?h3 ! a = take ?m ?h3 ! a" by simp
      with frame show ?thesis by simp
    qed
    then show ?thesis by simp
  qed
  have "?h2 ! ?m = ?h1 ! ?m @ concat (map ((!) ?h1) ts)"
    using notin by (intro extend_loop_merged) simp_all
  then have "?h2 ! ?m = concat (map ((!) h) ts)"
    by (simp add: old)
  then have res: "?h3 ! ?m = merge_transcripts (map ((!) h) ts)"
    by (simp add: list_sort_def length_extend_loop merge_transcripts_concat)
  show ?thesis using eq len frame inputs res by blast
qed

theorem merge_heap_frame_witness:
  "merge_transcripts_heap
     [[\<lparr>speaker_name = ''a'', content = ''x'', start_time = 5::int\<rparr>],
      [\<lparr>speaker_name = ''b'', content = ''y'', start_time = 2\<rparr>]] [0, 1]
   = ([[\<lparr>speaker_name = ''a'', content = ''x'', start_time = 5\<rparr>],
       [\<lparr>speaker_name = ''b'', content = ''y'', start_time = 2\<rparr>],
       [\<lparr>speaker_name = ''b'', content = ''y'', start_time = 2\<rparr>,
        \<lparr>speaker_name = ''a'', content = ''x'', start_time = 5\<rparr>]], 2)"
  using merge_heap_frame
    [of "[0, 1]" "[[\<lparr>speaker_name = ''a'', content = ''x'', start_time = 5::int\<rparr>],
      [\<lparr>speaker_name = ''b'', content = ''y'', start_time = 2\<rparr>]]"]
  by (simp add: merge_transcripts_heap_def new_list_def list_extend_def list_sort_def)

section \<open>The extractor on well-formed documents\<close>

lemma andthen_Inr [simp]: "andthen (Inr x) f = f x"
  by (simp add: andthen_def)

lemma andthen_Inl [simp]: "andthen (Inl e) f = Inl e"
  by (simp add: andthen_def)

lemma py_join_empty_Cons: "py_join [] (x # xs) = x @ py_join [] xs"
  by (cases xs) simp_all

lemma py_join_empty_sep: "py_join [] xs = concat xs"
  by (induction xs) (simp_all add: py_join_empty_Cons)

lemma str_items_strs: "str_items (map JStr xs) = Inr xs"
  by (induction xs) simp_all

lemma wf_word_text:
  "wf_word w \<Longrightarrow> py_get w ''text'' (JStr []) = Inr (JStr (spec_word_text w))"
  apply (cases w; simp)
  subgoal for kvs
    apply (cases "map_of kvs ''text''"; simp)
    subgoal for v by (cases v; simp)
    done
  done

lemma words_loop_wf:
  "list_all wf_word ws \<Longrightarrow>
   words_loop ws parts = Inr (parts @ map JStr (filter (\<lambda>f. f \<noteq> []) (map spec_word_text ws)))"
  by (induction ws arbitrary: parts) (simp_all add: wf_word_text)

lemma sentences_loop_wf:
  "list_all wf_sentence ss \<Longrightarrow>
   sentences_loop ss parts =
     Inr (parts @ map JStr (filter (\<lambda>f. f \<noteq> []) (concat (map spec_sentence_fragments ss))))"
proof (induction ss arbitrary: parts)
  case Nil
  then show ?case by simp
next
  case (Cons s ss)
  from Cons.prems obtain kvs where s: "s = JObj kvs" and w: "wf_words (map_of kvs ''words'')"
    and rest: "list_all wf_sentence ss"
    by (cases s) simp_all
  show ?case
  proof (cases "map_of kvs ''words''")
    case None
    then show ?thesis by (simp add: s Cons.IH [OF rest])
  next
    case (Some v)
    with w obtain ws where v: "v = JArr ws" and ws: "list_all wf_word ws"
      by (cases v) simp_all
    show ?thesis by (simp add: s Some v words_loop_wf [OF ws] Cons.IH [OF rest])
  qed
qed

lemma paragraph_body_wf:
  assumes "wf_paragraph (JObj kvs)"
  shows "paragraph_body (JObj kvs) acc =
     Inr (if nonempty_fragments (JObj kvs) = [] then acc
          else acc @ [spec_utterance (JObj kvs)])"
proof -
  from assms have sp: "wf_speaker (map_of kvs ''speaker'')"
    and se: "wf_sentences (map_of kvs ''sentences'')" by simp_all
  obtain s where spk: "py_get (JObj kvs) ''speaker'' (JObj []) = Inr (JObj s)"
    and name: "py_get (JObj s) ''user_name'' (JStr unknown_speaker) = Inr (spec_user_name (map_of kvs ''speaker''))"
  proof (cases "map_of kvs ''speaker''")
    case None
    then show ?thesis using that [of "[]"] by simp
  next
    case (Some v)
    with sp obtain s where "v = JObj s" by (cases v) simp_all
    with Some show ?thesis using that [of s] by simp
  qed
  obtain ss where sents: "py_get (JObj kvs) ''sentences'' (JArr []) = Inr (JArr ss)"
    and ss: "list_all wf_sentence ss"
    and frags: "spec_fragments (JObj kvs) = concat (map spec_sentence_fragments ss)"
  proof (cases "map_of kvs ''sentences''")
    case None
    then show ?thesis using that [of "[]"] by simp
  next
    case (Some v)
    with se obtain ss where "v = JArr ss" and "list_all wf_sentence ss" by (cases v) simp_all
    with Some show ?thesis using that [of ss] by simp
  qed
  have loop: "sentences_loop ss [] = Inr (map JStr (nonempty_fragments (JObj kvs)))"
    using sentences_loop_wf [OF ss, of "[]"] by (simp only: nonempty_fragments_def frags append_Nil)
  have t: "py_get (JObj kvs) ''start_time'' (JInt 0)
      = Inr (spec_start_time (map_of kvs ''start_time''))"
    by (cases "map_of kvs ''start_time''") simp_all
  show ?thesis
    by (simp add: paragraph_body_def spk name sents loop t str_items_strs py_join_empty_sep
          del: py_get.simps)
qed

lemma paragraphs_loop_wf:
  "list_all wf_paragraph ps \<Longrightarrow> paragraphs_loop ps acc = Inr (acc @ spec_records ps)"
proof (induction ps arbitrary: acc)
  case Nil
  then show ?case by (simp add: spec_records_def)
next
  case (Cons p ps)
  from Cons.prems obtain kvs where p: "p = JObj kvs" and wf: "wf_paragraph (JObj kvs)"
    and rest: "list_all wf_paragraph ps"
    by (cases p) simp_all
  show ?case
    using Cons.IH [OF rest]
    by (simp add: p paragraph_body_wf [OF wf] spec_records_def del: spec_utterance.simps)
qed

lemma parse_transcript_wf:
  assumes "wf_document d"
  shows "parse_transcript d = Inr (spec_extract d)"
proof -
  from assms obtain kvs where d: "d = JObj kvs" and m: "wf_minutes (map_of kvs ''minutes'')"
    by (cases d) simp_all
  show ?thesis
  proof (cases "map_of kvs ''minutes''")
    case None
    then show ?thesis by (simp add: d parse_transcript_def spec_extract_def spec_records_def)
  next
    case (Some v)
    with m obtain mk where v: "v = JObj mk" and ps: "wf_paragraphs (map_of mk ''paragraphs'')"
      by (cases v) simp_all
    show ?thesis
    proof (cases "map_of mk ''paragraphs''")
      case None
      then show ?thesis
        by (simp add: d Some v parse_transcript_def spec_extract_def spec_records_def)
    next
      case (Some w)
      with ps obtain pl where w: "w = JArr pl" and pl: "list_all wf_paragraph pl"
        by (cases w) simp_all
      show ?thesis
        using paragraphs_loop_wf [OF pl, of "[]"]
        by (simp add: d \<open>map_of kvs ''minutes'' = Some v\<close> v Some w parse_transcript_def spec_extract_def)
    qed
  qed
qed

lemma spec_records_append: "spec_records (xs @ ys) = spec_records xs @ spec_records ys"
  by (simp add: spec_records_def)

lemma spec_records_Cons:
  "spec_records (p # ps) =
     (if nonempty_fragments p \<noteq> [] then spec_utterance p # spec_records ps else spec_records ps)"
  by (simp add: spec_records_def)

lemma content_spec_utterance: "content (spec_utterance p) = concat (nonempty_fragments p)"
  by (cases p) (simp_all add: nonempty_fragments_def)

text \<open>
  C3. On a well-formed document the extractor returns one record for each paragraph of
  \<^verbatim>\<open>minutes.paragraphs\<close> that has a non-empty fragment and none for the others, in the
  order of the document: the contents of the records are, in that order, the non-empty
  fragments of those paragraphs joined with nothing between them. Said of one paragraph
  at any place of the document: if it has a non-empty fragment, the transcript is the
  records of the paragraphs before it, then one record with that content, then the
  records of the paragraphs after it; if all its fragments are empty or absent, the
  transcript is the records of the paragraphs before and after it.
\<close>

theorem extractor_paragraph_content:
  assumes "wf_document d"
  shows "(\<exists>r. parse_transcript d = Inr r
           \<and> map content r =
               map (\<lambda>p. concat (nonempty_fragments p))
                 (filter (\<lambda>p. nonempty_fragments p \<noteq> []) (spec_paragraphs d)))
       \<and> (\<forall>before p after. spec_paragraphs d = before @ p # after \<longrightarrow>
             (nonempty_fragments p \<noteq> [] \<longrightarrow>
                (\<exists>u. parse_transcript d = Inr (spec_records before @ u # spec_records after)
                   \<and> content u = concat (nonempty_fragments p)))
           \<and> (nonempty_fragments p = [] \<longrightarrow>
                parse_transcript d = Inr (spec_records before @ spec_records after)))"
proof -
  have r: "parse_transcript d = Inr (spec_extract d)"
    using assms by (rule parse_transcript_wf)
  have "map content (spec_extract d) =
          map (\<lambda>p. concat (nonempty_fragments p))
            (filter (\<lambda>p. nonempty_fragments p \<noteq> []) (spec_paragraphs d))"
    by (simp add: spec_extract_def spec_records_def content_spec_utterance)
  with r have whole: "\<exists>r. parse_transcript d = Inr r
           \<and> map content r =
               map (\<lambda>p. concat (nonempty_fragments p))
                 (filter (\<lambda>p. nonempty_fragments p \<noteq> []) (spec_paragraphs d))"
    by blast
  have one: "\<exists>u. parse_transcript d = Inr (spec_records before @ u # spec_records after)
                   \<and> content u = concat (nonempty_fragments p)"
    if "spec_paragraphs d = before @ p # after" and "nonempty_fragments p \<noteq> []"
    for before p after
  proof -
    have "spec_extract d = spec_records before @ spec_utterance p # spec_records after"
      using that by (simp add: spec_extract_def spec_records_append spec_records_Cons)
    with r show ?thesis using content_spec_utterance by auto
  qed
  have none: "parse_transcript d = Inr (spec_records before @ spec_records after)"
    if "spec_paragraphs d = before @ p # after" and "nonempty_fragments p = []"
    for before p after
  proof -
    have "spec_extract d = spec_records before @ spec_records after"
      using that by (simp add: spec_extract_def spec_records_append spec_records_Cons)
    with r show ?thesis by simp
  qed
  from whole one none show ?thesis by blast
qed

theorem extractor_paragraph_content_witness:
  "\<exists>r. parse_transcript (JObj [(''minutes'', JObj [(''paragraphs'', JArr
       [JObj [(''sentences'', JArr [JObj [(''words'',
            JArr [JObj [(''text'', JStr [])], JObj []])]])],
        JObj [(''speaker'', JObj [(''user_name'', JStr ''Bob'')]),
              (''start_time'', JInt 5),
              (''sentences'', JArr [JObj [(''words'',
                  JArr [JObj [(''text'', JStr ''Hi'')], JObj [(''text'', JStr [])], JObj [],
                        JObj [(''text'', JStr '' there'')]])]])]])])]) = Inr r
     \<and> map content r = [''Hi there'']"
proof -
  let ?q = "JObj [(''sentences'', JArr [JObj [(''words'',
            JArr [JObj [(''text'', JStr [])], JObj []])]])]"
  let ?p = "JObj [(''speaker'', JObj [(''user_name'', JStr ''Bob'')]),
              (''start_time'', JInt 5),
              (''sentences'', JArr [JObj [(''words'',
                  JArr [JObj [(''text'', JStr ''Hi'')], JObj [(''text'', JStr [])], JObj [],
                        JObj [(''text'', JStr '' there'')]])]])]"
  let ?d = "JObj [(''minutes'', JObj [(''paragraphs'', JArr [?q, ?p])])]"
  have wf: "wf_document ?d" by simp
  have ps: "spec_paragraphs ?d = [?q, ?p]" by simp
  have nq: "nonempty_fragments ?q = []" by (simp add: nonempty_fragments_def)
  have np: "nonempty_fragments ?p = [''Hi'', '' there'']" by (simp add: nonempty_fragments_def)
  from extractor_paragraph_content [OF wf]
  have "\<exists>r. parse_transcript ?d = Inr r
           \<and> map content r =
               map (\<lambda>p. concat (nonempty_fragments p))
                 (filter (\<lambda>p. nonempty_fragments p \<noteq> []) (spec_paragraphs ?d))"
    by blast
  then show ?thesis by (simp add: nq np)
qed

text \<open>
  C6 (as the code has it). A document, a dict, that has no key \<^verbatim>\<open>minutes\<close> gives the empty
  transcript and no error, and so does one whose \<^verbatim>\<open>minutes\<close> is a dict with no key
  \<^verbatim>\<open>paragraphs\<close>, a list with no item \<^verbatim>\<open>"paragraphs"\<close> or a str in which \<^verbatim>\<open>paragraphs\<close>
  does not occur.
\<close>

theorem missing_path_empty:
  "(map_of kvs ''minutes'' = None \<longrightarrow> parse_transcript (JObj kvs) = Inr [])
   \<and> (map_of kvs ''minutes'' = Some (JObj m) \<and> map_of m ''paragraphs'' = None
        \<longrightarrow> parse_transcript (JObj kvs) = Inr [])
   \<and> (map_of kvs ''minutes'' = Some (JArr xs) \<and> JStr ''paragraphs'' \<notin> set xs
        \<longrightarrow> parse_transcript (JObj kvs) = Inr [])
   \<and> (map_of kvs ''minutes'' = Some (JStr s) \<and> \<not> str_contains ''paragraphs'' s
        \<longrightarrow> parse_transcript (JObj kvs) = Inr [])"
  by (simp add: parse_transcript_def)

theorem missing_path_empty_witness:
  "parse_transcript (JObj [(''title'', JStr ''t'')]) = Inr []
   \<and> parse_transcript (JObj [(''minutes'', JObj [(''keywords'', JArr [])])]) = Inr []
   \<and> parse_transcript (JObj [(''minutes'', JArr [JStr ''keywords''])]) = Inr []
   \<and> parse_transcript (JObj [(''minutes'', JStr ''none'')]) = Inr []"
proof -
  have a: "parse_transcript (JObj [(''title'', JStr ''t'')]) = Inr []"
    using missing_path_empty [of "[(''title'', JStr ''t'')]" "[]" "[]" "[]"] by simp
  have b: "parse_transcript (JObj [(''minutes'', JObj [(''keywords'', JArr [])])]) = Inr []"
    using missing_path_empty [of "[(''minutes'', JObj [(''keywords'', JArr [])])]"
        "[(''keywords'', JArr [])]" "[]" "[]"]
    by simp
  have c: "parse_transcript (JObj [(''minutes'', JArr [JStr ''keywords''])]) = Inr []"
    using missing_path_empty [of "[(''minutes'', JArr [JStr ''keywords''])]" "[]"
        "[JStr ''keywords'']" "[]"]
    by simp
  have d: "parse_transcript (JObj [(''minutes'', JStr ''none'')]) = Inr []"
    using missing_path_empty [of "[(''minutes'', JStr ''none'')]" "[]" "[]" "''none''"]
    by simp
  from a b c d show ?thesis by blast
qed

text \<open>
  C6 (as the specification words it) fails: a \<^verbatim>\<open>minutes\<close> that is \<^verbatim>\<open>null\<close> has no key
  \<^verbatim>\<open>paragraphs\<close>, and there the test \<^verbatim>\<open>'paragraphs' in data['minutes']\<close> raises.
\<close>

theorem null_minutes_raises:
  "parse_transcript (JObj [(''minutes'', JNull)]) = Inl TypeError
   \<and> parse_transcript (JObj [(''minutes'', JNull)]) \<noteq> Inr []"
  by (simp add: parse_transcript_def)

text \<open>A number and a bool in the place of \<^verbatim>\<open>minutes\<close> raise in the same way.\<close>

lemma int_minutes_raises:
  "parse_transcript (JObj [(''minutes'', JInt 5)]) = Inl TypeError"
  by (simp add: parse_transcript_def)

lemma bool_minutes_raises:
  "parse_transcript (JObj [(''minutes'', JBool True)]) = Inl TypeError"
  by (simp add: parse_transcript_def)



text \<open>
  C9. On a well-formed document, for a paragraph at any place of \<^verbatim>\<open>minutes.paragraphs\<close>
  that has a non-empty fragment and whose \<^verbatim>\<open>speaker\<close> has the key \<^verbatim>\<open>user_name\<close>, the
  record the extractor returns for it carries the value found there; when that value is
  the empty str the speaker name is the empty str, not the placeholder. So there is a
  document for which the extractor returns a record with the empty speaker name.
\<close>

theorem extractor_keeps_user_name:
  "(wf_document d \<and> spec_paragraphs d = before @ JObj kvs # after
      \<and> nonempty_fragments (JObj kvs) \<noteq> []
      \<and> map_of kvs ''speaker'' = Some (JObj s) \<and> map_of s ''user_name'' = Some v
      \<longrightarrow> (\<exists>u. parse_transcript d = Inr (spec_records before @ u # spec_records after)
             \<and> speaker_name u = v
             \<and> (v = JStr [] \<longrightarrow> speaker_name u \<noteq> JStr unknown_speaker)))
   \<and> (\<exists>d' r. parse_transcript d' = Inr r \<and> (\<exists>u \<in> set r. speaker_name u = JStr []))"
proof -
  have kept: "\<exists>u. parse_transcript d = Inr (spec_records before @ u # spec_records after)
             \<and> speaker_name u = v
             \<and> (v = JStr [] \<longrightarrow> speaker_name u \<noteq> JStr unknown_speaker)"
    if wf: "wf_document d" and ps: "spec_paragraphs d = before @ JObj kvs # after"
      and ne: "nonempty_fragments (JObj kvs) \<noteq> []"
      and sp: "map_of kvs ''speaker'' = Some (JObj s)" and un: "map_of s ''user_name'' = Some v"
  proof -
    have "parse_transcript d = Inr (spec_extract d)"
      using wf by (rule parse_transcript_wf)
    moreover have "spec_extract d
        = spec_records before @ spec_utterance (JObj kvs) # spec_records after"
      using ps ne by (simp add: spec_extract_def spec_records_append spec_records_Cons)
    moreover have "speaker_name (spec_utterance (JObj kvs)) = v"
      using sp un by simp
    moreover have "JStr [] \<noteq> JStr unknown_speaker"
      by (simp add: unknown_speaker_def)
    ultimately show ?thesis by auto
  qed
  let ?d = "JObj [(''minutes'', JObj [(''paragraphs'', JArr
      [JObj [(''speaker'', JObj [(''user_name'', JStr [])]),
             (''sentences'', JArr [JObj [(''words'', JArr [JObj [(''text'', JStr ''Hi'')]])]])]])])]"
  have "parse_transcript ?d = Inr [\<lparr>speaker_name = JStr [], content = ''Hi'', start_time = JInt 0\<rparr>]"
    by (simp add: parse_transcript_def paragraph_body_def)
  then have ex: "\<exists>d' r. parse_transcript d' = Inr r \<and> (\<exists>u \<in> set r. speaker_name u = JStr [])"
    by (intro exI [of _ ?d] exI [of _ "[\<lparr>speaker_name = JStr [], content = ''Hi'', start_time = JInt 0\<rparr>]"]) simp
  from kept ex show ?thesis by blast
qed

theorem extractor_keeps_user_name_witness:
  "\<exists>u. parse_transcript (JObj [(''minutes'', JObj [(''paragraphs'', JArr
      [JObj [(''speaker'', JObj [(''user_name'', JStr [])]),
             (''sentences'', JArr [JObj [(''words'', JArr [JObj [(''text'', JStr ''Hi'')]])]])]])])])
       = Inr [u]
     \<and> speaker_name u = JStr [] \<and> speaker_name u \<noteq> JStr unknown_speaker"
proof -
  let ?kvs = "[(''speaker'', JObj [(''user_name'', JStr [])]),
             (''sentences'', JArr [JObj [(''words'', JArr [JObj [(''text'', JStr ''Hi'')]])]])]"
  let ?d = "JObj [(''minutes'', JObj [(''paragraphs'', JArr [JObj ?kvs])])]"
  have wf: "wf_document ?d" by simp
  have ps: "spec_paragraphs ?d = [] @ JObj ?kvs # []" by simp
  have ne: "nonempty_fragments (JObj ?kvs) \<noteq> []" by (simp add: nonempty_fragments_def)
  have sp: "map_of ?kvs ''speaker'' = Some (JObj [(''user_name'', JStr [])])" by simp
  have un: "map_of [(''user_name'', JStr [])] ''user_name'' = Some (JStr [])" by simp
  from extractor_keeps_user_name
    [where d = ?d and before = "[]" and kvs = ?kvs and after = "[]"
       and s = "[(''user_name'', JStr [])]" and v = "JStr []"]
    wf ps ne sp un
  have "\<exists>u. parse_transcript ?d = Inr (spec_records [] @ u # spec_records [])
             \<and> speaker_name u = JStr []
             \<and> (JStr [] = JStr [] \<longrightarrow> speaker_name u \<noteq> JStr unknown_speaker)"
    by blast
  then show ?thesis by (simp add: spec_records_def)
qed

end
